theory Spec2Isabelle
  imports Main "HOL-Library.Sublist" "HOL-Library.AList"
begin

section \<open>JavaScript string operations used by index.js\<close>

text \<open>
  Strings are character lists. The program only inspects paths and file contents through
  \<^verbatim>\<open>startsWith\<close>, \<^verbatim>\<open>endsWith\<close>, \<^verbatim>\<open>includes\<close>, \<^verbatim>\<open>replace\<close>,
  \<^verbatim>\<open>slice(0, -4)\<close> and \<^verbatim>\<open>split('/').pop()\<close>; each is written out below with the
  result the language defines for it.
\<close>

definition startsWith :: "string \<Rightarrow> string \<Rightarrow> bool" where
  "startsWith s p = prefix p s"

definition endsWith :: "string \<Rightarrow> string \<Rightarrow> bool" where
  "endsWith s p = prefix (rev p) (rev s)"

text \<open>\<^verbatim>\<open>s.includes(n)\<close>: \<open>n\<close> occurs in \<open>s\<close> as a contiguous block.\<close>

fun str_includes :: "string \<Rightarrow> string \<Rightarrow> bool" where
  "str_includes [] n = (n = [])"
| "str_includes (c # cs) n = (if prefix n (c # cs) then True else str_includes cs n)"

text \<open>
  \<^verbatim>\<open>s.slice(0, -4)\<close> drops the last four characters; a string shorter than four characters
  becomes empty (truncating subtraction is exactly that).
\<close>

definition slice_0_m4 :: "string \<Rightarrow> string" where
  "slice_0_m4 s = take (length s - 4) s"

text \<open>\<^verbatim>\<open>s.split('/').pop()\<close>: the characters after the last slash.\<close>

definition split_pop :: "string \<Rightarrow> string" where
  "split_pop s = rev (takeWhile (\<lambda>c. c \<noteq> CHR ''/'') (rev s))"

text \<open>\<^verbatim>\<open>s.replace(/\\/g, '/')\<close>: every backslash becomes a slash.\<close>

definition unbackslash :: "string \<Rightarrow> string" where
  "unbackslash s = map (\<lambda>c. if c = CHR 0x5C then CHR ''/'' else c) s"

text \<open>
  \<^verbatim>\<open>s.replace(pat, rep)\<close> with a string pattern replaces the first occurrence of
  \<open>pat\<close> only, and the replacement text is not taken literally: the language expands
  \<^verbatim>\<open>$$\<close> to a dollar sign, \<^verbatim>\<open>$&\<close> to the matched text, a dollar followed by a backquote to
  the text before the match and a dollar followed by an apostrophe to the text after it.
  A string pattern has no capture groups, so every other dollar stays as it is.
\<close>

fun getSubstitution :: "string \<Rightarrow> string \<Rightarrow> string \<Rightarrow> string \<Rightarrow> string" where
  "getSubstitution matched pre post [] = []"
| "getSubstitution matched pre post [c] = [c]"
| "getSubstitution matched pre post (c # d # r) =
     (if c = CHR ''$'' \<and> d = CHR ''$'' then CHR ''$'' # getSubstitution matched pre post r
      else if c = CHR ''$'' \<and> d = CHR ''&'' then matched @ getSubstitution matched pre post r
      else if c = CHR ''$'' \<and> d = CHR 0x60 then pre @ getSubstitution matched pre post r
      else if c = CHR ''$'' \<and> d = CHR 0x27 then post @ getSubstitution matched pre post r
      else c # getSubstitution matched pre post (d # r))"

text \<open>
  The first occurrence of \<open>pat\<close>: the text before it and the text after it, or \<open>None\<close> when
  \<open>pat\<close> does not occur. \<open>acc\<close> holds, reversed, the characters already passed.
\<close>

fun find_first :: "string \<Rightarrow> string \<Rightarrow> string \<Rightarrow> (string \<times> string) option" where
  "find_first pat acc [] = (if pat = [] then Some (rev acc, []) else None)"
| "find_first pat acc (c # cs) =
     (if prefix pat (c # cs) then Some (rev acc, drop (length pat) (c # cs))
      else find_first pat (c # acc) cs)"

definition str_replace :: "string \<Rightarrow> string \<Rightarrow> string \<Rightarrow> string" where
  "str_replace s pat rep =
     (case find_first pat [] s of
        None \<Rightarrow> s
      | Some (pre, post) \<Rightarrow> pre @ getSubstitution pat pre post rep @ post)"

section \<open>path.posix.parse\<close>

text \<open>
  Of the parsed path the program reads \<^verbatim>\<open>ext\<close> and \<^verbatim>\<open>name\<close>. The base name is the last
  component once trailing slashes are dropped. The extension starts at the last dot of the
  base name, unless there is no dot, the dot is the first character of the base name, or
  the base name is two dots; the name is what stands before the extension.
\<close>

record parsed =
  name :: string
  ext :: string

definition basename :: "string \<Rightarrow> string" where
  "basename p =
     rev (takeWhile (\<lambda>c. c \<noteq> CHR ''/'') (dropWhile (\<lambda>c. c = CHR ''/'') (rev p)))"

definition path_parse :: "string \<Rightarrow> parsed" where
  "path_parse p =
     (let b = basename p;
          k = length b - Suc (length (takeWhile (\<lambda>c. c \<noteq> CHR ''.'') (rev b)))
      in if CHR ''.'' \<in> set b \<and> 0 < k \<and> b \<noteq> ''..''
         then \<lparr>name = take k b, ext = drop k b\<rparr>
         else \<lparr>name = b, ext = []\<rparr>)"

section \<open>The file system\<close>

text \<open>
  The file system is an association list from path to node, in directory order. A path is
  the literal string the program passes. The operations are those of \<^verbatim>\<open>fs/promises\<close> that
  the program calls, each returning its error as a value.
\<close>

datatype node = File string | Dir

type_synonym filesys = "(string \<times> node) list"

datatype error = ENOENT | EISDIR | ENOTDIR | ConfigError | RenderError | FetchError

definition dirname :: "string \<Rightarrow> string" where
  "dirname p = rev (drop 1 (dropWhile (\<lambda>c. c \<noteq> CHR ''/'') (rev p)))"

definition is_child :: "string \<Rightarrow> string \<Rightarrow> bool" where
  "is_child d q =
     (prefix (d @ ''/'') q \<and> Suc (length d) < length q
      \<and> CHR ''/'' \<notin> set (drop (Suc (length d)) q))"

definition fs_readdir :: "filesys \<Rightarrow> string \<Rightarrow> error + string list" where
  "fs_readdir fs d =
     (case map_of fs d of
        None \<Rightarrow> Inl ENOENT
      | Some (File c) \<Rightarrow> Inl ENOTDIR
      | Some Dir \<Rightarrow>
          Inr (remdups (map (drop (Suc (length d))) (filter (is_child d) (map fst fs)))))"

definition fs_readFile :: "filesys \<Rightarrow> string \<Rightarrow> error + string" where
  "fs_readFile fs p =
     (case map_of fs p of
        None \<Rightarrow> Inl ENOENT
      | Some Dir \<Rightarrow> Inl EISDIR
      | Some (File c) \<Rightarrow> Inr c)"

text \<open>
  Writing a file fails on a directory and where the parent directory is missing; the
  program never creates a directory. A path without a parent part is taken to lie in an
  existing directory.
\<close>

definition fs_writeFile :: "filesys \<Rightarrow> string \<Rightarrow> string \<Rightarrow> error + filesys" where
  "fs_writeFile fs p c =
     (if map_of fs p = Some Dir then Inl EISDIR
      else if dirname p = [] then Inr (AList.update p (File c) fs)
      else if map_of fs (dirname p) = Some Dir then Inr (AList.update p (File c) fs)
      else Inl ENOENT)"

text \<open>
  \<^verbatim>\<open>fs.rm(path, { recursive: true }).catch((e) => undefined)\<close>: the path and everything
  below it is removed; a missing path is an error that the program swallows.
\<close>

definition fs_rm :: "filesys \<Rightarrow> string \<Rightarrow> filesys" where
  "fs_rm fs p = filter (\<lambda>(q, n). q \<noteq> p \<and> \<not> prefix (p @ ''/'') q) fs"

section \<open>External collaborators, configuration and process state\<close>

text \<open>
  What the program obtains from libraries is a parameter of the model: \<^verbatim>\<open>path.resolve\<close>
  (it depends on the working directory), the JSON reader behind \<^verbatim>\<open>require\<close>, the
  template engine \<^verbatim>\<open>edge.render\<close> (it reads the mounted directory, hence the file system
  argument) and the beautifier (\<^verbatim>\<open>condense-newlines\<close> followed by \<^verbatim>\<open>js-beautify\<close>).
  So are the program's two passes \<^verbatim>\<open>importSvg\<close> and \<^verbatim>\<open>importText\<close>, which rewrite the
  rendered text with what they fetch over the network: they enter as functions from a
  text to a text or an error, and nothing below depends on what they compute.
\<close>

record 'd env =
  resolve :: "string \<Rightarrow> string"
  parse_json :: "string \<Rightarrow> 'd option"
  edge_render :: "filesys \<Rightarrow> string \<Rightarrow> 'd \<Rightarrow> error + string"
  importSvg :: "string \<Rightarrow> error + string"
  importText :: "string \<Rightarrow> error + string"
  beautify :: "string \<Rightarrow> string"

text \<open>
  The command line: the source and destination directories (backslashes already replaced)
  and whether \<^verbatim>\<open>--build\<close> was given.
\<close>

record cfg =
  src :: string
  dst :: string
  build :: bool

datatype log_entry = Starting string | Finished string

text \<open>
  The state the program acts on: the file system, the global \<^verbatim>\<open>data\<close> and the lines
  printed by \<^verbatim>\<open>util.starting\<close> and \<^verbatim>\<open>util.finished\<close> (without the elapsed time).
\<close>

record 'd state =
  fsys :: filesys
  data :: 'd
  console :: "log_entry list"

section \<open>util\<close>

text \<open>
  \<^verbatim>\<open>util.requireUncached\<close> on a JSON file: the module cache is emptied first, so the file
  is read and parsed at every call; a missing file and a text that is not JSON both throw.
\<close>

definition util_requireUncached :: "'d env \<Rightarrow> filesys \<Rightarrow> string \<Rightarrow> error + 'd" where
  "util_requireUncached en fs moduleName =
     (case fs_readFile fs moduleName of
        Inl e \<Rightarrow> Inl e
      | Inr s \<Rightarrow> (case parse_json en s of None \<Rightarrow> Inl ConfigError | Some d \<Rightarrow> Inr d))"

text \<open>\<^verbatim>\<open>util.starting\<close> and \<^verbatim>\<open>util.finished\<close> print one line each.\<close>

definition util_starting :: "string \<Rightarrow> 'd state \<Rightarrow> 'd state" where
  "util_starting taskName st = st\<lparr>console := console st @ [Starting taskName]\<rparr>"

definition util_finished :: "string \<Rightarrow> 'd state \<Rightarrow> 'd state" where
  "util_finished taskName st = st\<lparr>console := console st @ [Finished taskName]\<rparr>"

text \<open>
  \<^verbatim>\<open>util.readdir(path, extname = null, prependPath = true)\<close>. An empty \<open>extname\<close> is
  falsy in the source and filters nothing; every string ends with the empty string, so
  \<open>Some []\<close> filters nothing here either.
\<close>

definition util_readdir ::
  "filesys \<Rightarrow> string \<Rightarrow> string option \<Rightarrow> bool \<Rightarrow> error + string list" where
  "util_readdir fs path extname prependPath =
     (case fs_readdir fs path of
        Inl e \<Rightarrow> Inl e
      | Inr files \<Rightarrow>
          (let files1 = (if prependPath then map (\<lambda>file. path @ ''/'' @ file) files else files);
               files2 = (case extname of
                           None \<Rightarrow> files1
                         | Some x \<Rightarrow> filter (\<lambda>file. endsWith file x) files1)
           in Inr files2))"

text \<open>
  \<^verbatim>\<open>Promise.all\<close> over the results of a list of operations: all values when every
  operation succeeded, one error when some operation failed. The source rejects with the
  failure that happens first in time; the model reports the first in list order, and no
  statement below depends on which of several errors is reported.
\<close>

fun promise_all :: "(error + 'a) list \<Rightarrow> error + 'a list" where
  "promise_all [] = Inr []"
| "promise_all (Inl e # rs) = Inl e"
| "promise_all (Inr v # rs) =
     (case promise_all rs of Inl e \<Rightarrow> Inl e | Inr vs \<Rightarrow> Inr (v # vs))"

definition util_readFile :: "filesys \<Rightarrow> string list \<Rightarrow> error + string list" where
  "util_readFile fs paths = promise_all (map (fs_readFile fs) paths)"

text \<open>
  \<^verbatim>\<open>util.writeFile(paths, contents)\<close> starts every write before it waits for any of
  them: a write that fails leaves the file system as it was and does not stop the writes
  after it. The result is the first error, if any, and the file system after all writes.
\<close>

fun util_writeFile ::
  "filesys \<Rightarrow> string list \<Rightarrow> string list \<Rightarrow> error option \<times> filesys" where
  "util_writeFile fs (p # ps) (c # cs) =
     (case fs_writeFile fs p c of
        Inl e \<Rightarrow> (Some e, snd (util_writeFile fs ps cs))
      | Inr fs' \<Rightarrow> util_writeFile fs' ps cs)"
| "util_writeFile fs ps cs = (None, fs)"

definition util_rm :: "filesys \<Rightarrow> string list \<Rightarrow> filesys" where
  "util_rm fs paths = foldl fs_rm fs paths"

section \<open>The program\<close>

definition getData :: "cfg \<Rightarrow> 'd env \<Rightarrow> filesys \<Rightarrow> error + 'd" where
  "getData cf en fs = util_requireUncached en fs (resolve en (src cf) @ ''/data.json'')"

definition renderToHtml :: "cfg \<Rightarrow> 'd env \<Rightarrow> 'd state \<Rightarrow> string \<Rightarrow> error + string" where
  "renderToHtml cf en st filename =
     (case edge_render en (fsys st) (split_pop filename) (data st) of
        Inl e \<Rightarrow> Inl e
      | Inr c0 \<Rightarrow>
          (case importSvg en c0 of
             Inl e \<Rightarrow> Inl e
           | Inr c1 \<Rightarrow>
               (case importText en c1 of
                  Inl e \<Rightarrow> Inl e
                | Inr c2 \<Rightarrow> Inr (if build cf then beautify en c2 else c2))))"

definition allFiles :: "cfg \<Rightarrow> filesys \<Rightarrow> error + string list" where
  "allFiles cf fs = util_readdir fs (src cf) (Some ''.edge'') True"

definition setDest :: "cfg \<Rightarrow> string \<Rightarrow> string" where
  "setDest cf file = slice_0_m4 (str_replace file (src cf) (dst cf)) @ ''html''"

text \<open>
  \<^verbatim>\<open>html(files = null)\<close>: \<open>None\<close> is \<^verbatim>\<open>null\<close>. The result is the error the call rejects
  with, if any, and the state it leaves.
\<close>

definition html ::
  "cfg \<Rightarrow> 'd env \<Rightarrow> string list option \<Rightarrow> 'd state \<Rightarrow> (error + unit) \<times> 'd state" where
  "html cf en files st =
     (let st1 = util_starting ''html'' st in
      case (case files of None \<Rightarrow> allFiles cf (fsys st1) | Some fl \<Rightarrow> Inr fl) of
        Inl e \<Rightarrow> (Inl e, st1)
      | Inr fl \<Rightarrow>
          (let destFiles = map (setDest cf) fl in
           case promise_all (map (renderToHtml cf en st1) fl) of
             Inl e \<Rightarrow> (Inl e, st1)
           | Inr contents \<Rightarrow>
               (case util_writeFile (fsys st1) destFiles contents of
                  (Some e, fs') \<Rightarrow> (Inl e, st1\<lparr>fsys := fs'\<rparr>)
                | (None, fs') \<Rightarrow> (Inr (), util_finished ''html'' (st1\<lparr>fsys := fs'\<rparr>)))))"

text \<open>
  The loop of \<^verbatim>\<open>getChangedTarget\<close> over \<^verbatim>\<open>contents.entries()\<close>: the file at each index
  whose content includes the name is pushed, in order.
\<close>

fun scan_contents :: "string \<Rightarrow> string list \<Rightarrow> string list \<Rightarrow> string list" where
  "scan_contents nm (f # fs) (c # cs) =
     (if str_includes c nm then f # scan_contents nm fs cs else scan_contents nm fs cs)"
| "scan_contents nm fs cs = []"

definition getChangedTarget ::
  "cfg \<Rightarrow> filesys \<Rightarrow> parsed \<Rightarrow> string \<Rightarrow> error + string list" where
  "getChangedTarget cf fs changed target =
     (if startsWith (name changed) ''_'' then
        (case allFiles cf fs of
           Inl e \<Rightarrow> Inl e
         | Inr files \<Rightarrow>
             (case util_readFile fs files of
                Inl e \<Rightarrow> Inl e
              | Inr contents \<Rightarrow> Inr (scan_contents (name changed) files contents)))
      else Inr [target])"

text \<open>The events chokidar reports through \<^verbatim>\<open>'all'\<close>.\<close>

datatype event = Add | AddDir | Change | Unlink | UnlinkDir

text \<open>
  The body of the timer callback of \<^verbatim>\<open>htmlWatch\<close>, in two parts: \<open>classify\<close> is the
  \<^verbatim>\<open>switch\<close> that computes \<^verbatim>\<open>targets\<close> (removing a destination file and reloading
  \<^verbatim>\<open>data\<close> on the way), \<open>on_event\<close> passes the targets to \<open>html\<close>.
\<close>

definition classify ::
  "cfg \<Rightarrow> 'd env \<Rightarrow> event \<Rightarrow> string \<Rightarrow> 'd state \<Rightarrow> (error + string list) \<times> 'd state" where
  "classify cf en ev target0 st =
     (let target = unbackslash target0;
          parsed = path_parse target
      in if ext parsed = ''.edge'' then
           (case ev of
              Add \<Rightarrow> (getChangedTarget cf (fsys st) parsed target, st)
            | Change \<Rightarrow> (getChangedTarget cf (fsys st) parsed target, st)
            | Unlink \<Rightarrow>
                (let removedTarget =
                       slice_0_m4 (str_replace target (src cf) (dst cf)) @ ''html''
                 in (Inr [], st\<lparr>fsys := util_rm (fsys st) [removedTarget]\<rparr>))
            | _ \<Rightarrow> (Inr [], st))
         else if ext parsed = ''.json'' then
           (case getData cf en (fsys st) of
              Inl e \<Rightarrow> (Inl e, st)
            | Inr d \<Rightarrow> (allFiles cf (fsys st), st\<lparr>data := d\<rparr>))
         else (Inr [], st))"

definition on_event ::
  "cfg \<Rightarrow> 'd env \<Rightarrow> event \<Rightarrow> string \<Rightarrow> 'd state \<Rightarrow> (error + unit) \<times> 'd state" where
  "on_event cf en ev target0 st =
     (case classify cf en ev target0 st of
        (Inl e, st1) \<Rightarrow> (Inl e, st1)
      | (Inr targets, st1) \<Rightarrow> html cf en (Some targets) st1)"

text \<open>
  The test \<^verbatim>\<open>changed.name.startsWith('_')\<close> of \<open>getChangedTarget\<close>, on a path: the
  file is a partial.
\<close>

definition is_partial :: "string \<Rightarrow> bool" where
  "is_partial p = startsWith (name (path_parse p)) ''_''"

text \<open>When \<open>fs_writeFile\<close> succeeds on a path.\<close>

definition can_write :: "filesys \<Rightarrow> string \<Rightarrow> bool" where
  "can_write fs p =
     (map_of fs p \<noteq> Some Dir \<and> (if dirname p = [] then True else map_of fs (dirname p) = Some Dir))"

section \<open>The watch loop\<close>






section \<open>A small site\<close>

text \<open>
  A site to run the program on: two pages, a footer partial that the index page and a
  layout partial include, a page in a subdirectory, and the data file. The stand-in for
  the template engine renders a template of the mounted directory as its text followed by
  the data, and fails on a missing template and on one that contains \<^verbatim>\<open>@bad\<close>; the JSON
  reader accepts what starts with a brace.
\<close>

definition ex_env :: "string env" where
  "ex_env =
     \<lparr>resolve = (\<lambda>p. p),
      parse_json = (\<lambda>s. if startsWith s ''{'' then Some s else None),
      edge_render = (\<lambda>fs nm d.
         case fs_readFile fs (''/site/'' @ nm) of
           Inl e \<Rightarrow> Inl RenderError
         | Inr c \<Rightarrow> if str_includes c ''@bad'' then Inl RenderError else Inr (c @ d)),
      importSvg = Inr,
      importText = Inr,
      beautify = (\<lambda>s. s)\<rparr>"

definition ex_cfg :: cfg where
  "ex_cfg = \<lparr>src = ''/site'', dst = ''/out'', build = False\<rparr>"

definition ex_fs :: filesys where
  "ex_fs =
     [(''/site'', Dir),
      (''/site/index.edge'', File ''<p>@include(_footer)</p>''),
      (''/site/_footer.edge'', File ''bye''),
      (''/site/_layout.edge'', File ''<b>@include(_footer)</b>''),
      (''/site/about.edge'', File ''about''),
      (''/site/sub'', Dir),
      (''/site/sub/about.edge'', File ''deep''),
      (''/site/data.json'', File ''{}''),
      (''/out'', Dir),
      (''/out/sub'', Dir)]"

definition ex_st :: "string state" where
  "ex_st = \<lparr>fsys = ex_fs, data = ''{}'', console = []\<rparr>"

text \<open>The site after a full build.\<close>

definition ex_built :: "string state" where
  "ex_built =
     \<lparr>fsys = ex_fs @
        [(''/out/index.html'', File ''<p>@include(_footer)</p>{}''),
         (''/out/_footer.html'', File ''bye{}''),
         (''/out/_layout.html'', File ''<b>@include(_footer)</b>{}''),
         (''/out/about.html'', File ''about{}'')],
      data = ''{}'',
      console = [Starting ''html'', Finished ''html'']\<rparr>"

text \<open>The site with a page that includes the footer and does not render.\<close>

definition ex_broken :: "string state" where
  "ex_broken =
     \<lparr>fsys = ex_fs @ [(''/site/draft.edge'', File ''@bad @include(_footer)'')],
      data = ''{}'',
      console = []\<rparr>"

text \<open>The site with a data file that is not JSON.\<close>

definition ex_badjson :: "string state" where
  "ex_badjson =
     \<lparr>fsys = AList.update ''/site/data.json'' (File ''oops'') ex_fs,
      data = ''{}'',
      console = []\<rparr>"

text \<open>The site with a directory in the place of the index page's destination.\<close>

definition ex_blocked :: "string state" where
  "ex_blocked = \<lparr>fsys = ex_fs @ [(''/out/index.html'', Dir)], data = ''{}'', console = []\<rparr>"

section \<open>Facts about the operations\<close>

lemmas ex_defs = ex_env_def ex_cfg_def ex_fs_def ex_st_def ex_built_def ex_broken_def ex_badjson_def
  ex_blocked_def

lemmas run_defs = html_def util_starting_def util_finished_def util_requireUncached_def
  on_event_def classify_def getChangedTarget_def allFiles_def
  util_readdir_def fs_readdir_def fs_readFile_def fs_writeFile_def fs_rm_def util_rm_def
  util_readFile_def getData_def renderToHtml_def setDest_def str_replace_def slice_0_m4_def
  split_pop_def unbackslash_def path_parse_def basename_def dirname_def is_child_def
  startsWith_def endsWith_def is_partial_def Let_def

text \<open>\<open>str_includes\<close> decides the contiguous-sublist relation of the library.\<close>

lemma str_includes_sublist: "str_includes s n \<longleftrightarrow> sublist n s"
  by (induction s) (auto simp: sublist_Cons_right)

lemma promise_all_map_Inr: "promise_all (map Inr vs) = Inr vs"
  by (induction vs) auto

lemma promise_all_Inr_D: "promise_all rs = Inr vs \<Longrightarrow> rs = map Inr vs"
proof (induction rs arbitrary: vs)
  case Nil
  then show ?case by auto
next
  case (Cons r rs)
  then show ?case
    by (cases r) (auto split: sum.splits)
qed

lemma promise_all_Inl: "Inl e \<in> set rs \<Longrightarrow> \<exists>e'. promise_all rs = Inl e'"
proof (induction rs)
  case Nil
  then show ?case by simp
next
  case (Cons r rs)
  then show ?case by (cases r) (auto split: sum.splits)
qed

lemma scan_contents_read:
  "promise_all (map (fs_readFile fs) files) = Inr cs \<Longrightarrow>
   scan_contents nm files cs =
     filter (\<lambda>f. \<exists>c. fs_readFile fs f = Inr c \<and> sublist nm c) files"
proof (induction files arbitrary: cs)
  case Nil
  then show ?case by simp
next
  case (Cons f files)
  then show ?case
    by (cases "fs_readFile fs f") (auto split: sum.splits simp: str_includes_sublist)
qed

lemma prefix_no_sep:
  "c \<notin> set xs \<Longrightarrow> prefix xs (ys @ c # zs) = prefix xs ys"
proof (induction xs arbitrary: ys)
  case Nil
  then show ?case by simp
next
  case (Cons x xs)
  then show ?case by (cases ys) auto
qed

lemma endsWith_prepend: "endsWith (d @ CHR ''/'' # n) ''.edge'' = endsWith n ''.edge''"
proof -
  have "prefix (rev ''.edge'') (rev n @ CHR ''/'' # rev d) = prefix (rev ''.edge'') (rev n)"
    by (rule prefix_no_sep) simp
  then show ?thesis by (simp add: endsWith_def)
qed

lemma allFiles_readdir:
  "fs_readdir fs (src cf) = Inr names \<Longrightarrow>
   allFiles cf fs = Inr (map (\<lambda>n. src cf @ ''/'' @ n) (filter (\<lambda>n. endsWith n ''.edge'') names))"
  by (simp add: allFiles_def util_readdir_def filter_map o_def endsWith_prepend)

lemma allFiles_fails:
  "fs_readdir fs (src cf) = Inl e \<Longrightarrow> allFiles cf fs = Inl e"
  by (simp add: allFiles_def util_readdir_def)

lemma map_of_fs_rm:
  "map_of (fs_rm fs d) p = (if p = d then None else if prefix (d @ ''/'') p then None else map_of fs p)"
  by (induction fs) (auto simp: fs_rm_def)


lemma fs_readdir_names:
  "fs_readdir fs d = Inr names \<Longrightarrow>
   distinct names \<and> set names = {n. n \<noteq> [] \<and> CHR ''/'' \<notin> set n \<and> d @ ''/'' @ n \<in> fst ` set fs}"
proof -
  assume a: "fs_readdir fs d = Inr names"
  then have n: "names = remdups (map (drop (Suc (length d))) (filter (is_child d) (map fst fs)))"
    by (auto simp: fs_readdir_def split: option.splits node.splits)
  have "set names = {n. n \<noteq> [] \<and> CHR ''/'' \<notin> set n \<and> d @ ''/'' @ n \<in> fst ` set fs}"
  proof (intro equalityI subsetI)
    fix x assume "x \<in> set names"
    then obtain q where q: "q \<in> fst ` set fs" "is_child d q" "x = drop (Suc (length d)) q"
      using n by auto
    from q(2) obtain r where r: "q = (d @ ''/'') @ r"
      unfolding is_child_def prefix_def by blast
    with q show "x \<in> {n. n \<noteq> [] \<and> CHR ''/'' \<notin> set n \<and> d @ ''/'' @ n \<in> fst ` set fs}"
      by (auto simp: is_child_def)
  next
    fix x assume "x \<in> {n. n \<noteq> [] \<and> CHR ''/'' \<notin> set n \<and> d @ ''/'' @ n \<in> fst ` set fs}"
    then have x: "x \<noteq> []" "CHR ''/'' \<notin> set x" "d @ ''/'' @ x \<in> fst ` set fs" by auto
    have "is_child d (d @ ''/'' @ x)" using x by (simp add: is_child_def)
    moreover have "drop (Suc (length d)) (d @ ''/'' @ x) = x" by simp
    ultimately show "x \<in> set names" using x(3) unfolding n
      by (metis (no_types, lifting) image_eqI list.set_map mem_Collect_eq set_filter set_remdups)
  qed
  with n show ?thesis by simp
qed

lemma map_of_dom_fst: "(map_of fs p \<noteq> None) = (p \<in> fst ` set fs)"
  by (simp add: map_of_eq_None_iff)

lemma endsWith_edge_nonempty: "endsWith n ''.edge'' \<Longrightarrow> n \<noteq> []"
  by (auto simp: endsWith_def)

lemma allFiles_set:
  assumes "allFiles cf fs = Inr files"
  shows "distinct files \<and>
     set files = {f. \<exists>n. f = src cf @ ''/'' @ n \<and> CHR ''/'' \<notin> set n \<and> endsWith n ''.edge''
                      \<and> map_of fs f \<noteq> None}"
proof -
  obtain names where nm: "fs_readdir fs (src cf) = Inr names"
    using assms by (cases "fs_readdir fs (src cf)") (auto simp: allFiles_fails)
  have files: "files = map (\<lambda>n. src cf @ ''/'' @ n) (filter (\<lambda>n. endsWith n ''.edge'') names)"
    using allFiles_readdir[OF nm] assms by simp
  from fs_readdir_names[OF nm] have d: "distinct names"
    and s: "set names = {n. n \<noteq> [] \<and> CHR ''/'' \<notin> set n \<and> src cf @ ''/'' @ n \<in> fst ` set fs}"
    by blast+
  have "distinct files" unfolding files using d
    by (simp add: distinct_map inj_on_def)
  moreover have "set files = {f. \<exists>n. f = src cf @ ''/'' @ n \<and> CHR ''/'' \<notin> set n \<and> endsWith n ''.edge''
                      \<and> map_of fs f \<noteq> None}"
    unfolding files map_of_dom_fst using s endsWith_edge_nonempty by auto
  ultimately show ?thesis by simp
qed

lemma html_None:
  "allFiles cf (fsys st) = Inr files \<Longrightarrow> html cf en None st = html cf en (Some files) st"
  by (simp add: html_def util_starting_def util_finished_def)

lemma scan_contents_subset: "set (scan_contents nm files cs) \<subseteq> set files"
  by (induction nm files cs rule: scan_contents.induct) auto

lemma getChangedTarget_subset:
  "startsWith (name changed) ''_'' \<Longrightarrow> allFiles cf fs = Inr files \<Longrightarrow>
   getChangedTarget cf fs changed t = Inr ts \<Longrightarrow> set ts \<subseteq> set files"
  using scan_contents_subset by (auto simp: getChangedTarget_def split: sum.splits)

lemma classify_json:
  "ext (path_parse (unbackslash t)) = ''.json'' \<Longrightarrow>
   classify cf en ev t st =
     (case getData cf en (fsys st) of
        Inl e \<Rightarrow> (Inl e, st)
      | Inr d \<Rightarrow> (allFiles cf (fsys st), st\<lparr>data := d\<rparr>))"
  by (simp add: classify_def Let_def)

lemma classify_edge_change:
  "ev = Add \<or> ev = Change \<Longrightarrow> ext (path_parse (unbackslash t)) = ''.edge'' \<Longrightarrow>
   classify cf en ev t st =
     (getChangedTarget cf (fsys st) (path_parse (unbackslash t)) (unbackslash t), st)"
  by (auto simp: classify_def Let_def)

lemma no_slash_sub: "CHR ''/'' \<notin> set n \<Longrightarrow> d @ ''/'' @ n \<noteq> d @ ''/'' @ sub @ ''/'' @ rest"
  by auto

lemma ex_allFiles:
  "allFiles ex_cfg (fsys ex_st) =
     Inr [''/site/index.edge'', ''/site/_footer.edge'', ''/site/_layout.edge'', ''/site/about.edge'']"
  by (simp add: ex_defs allFiles_def util_readdir_def fs_readdir_def is_child_def endsWith_def)

section \<open>The file enumeration (C10)\<close>

text \<open>
  C10, as the code has it. When the enumeration \<open>allFiles\<close> succeeds, it returns, without
  repetition, exactly the paths \<open>src/n\<close> where \<open>n\<close> is the name of an entry directly inside
  the source directory (no slash in \<open>n\<close>) that ends in \<^verbatim>\<open>.edge\<close>; no path below a
  subdirectory of the source directory is among them. A full build renders and writes
  exactly this list, a change of a \<^verbatim>\<open>.json\<close> file has it as its targets, and the targets
  of a change of a partial are drawn from it. The claim's last clause is stated for every
  operation; it holds for these three only (see the counterexample below).
\<close>

theorem C10_enumeration:
  assumes "allFiles cf (fsys st) = Inr files"
  shows "distinct files
     \<and> set files = {f. \<exists>n. f = src cf @ ''/'' @ n \<and> CHR ''/'' \<notin> set n \<and> endsWith n ''.edge''
                        \<and> map_of (fsys st) f \<noteq> None}
     \<and> src cf @ ''/'' @ sub @ ''/'' @ rest \<notin> set files
     \<and> html cf en None st = html cf en (Some files) st
     \<and> (\<forall>d. ext (path_parse (unbackslash t)) = ''.json'' \<and> getData cf en (fsys st) = Inr d
           \<longrightarrow> fst (classify cf en ev t st) = Inr files)
     \<and> (\<forall>ts. is_partial (unbackslash t) \<and>
             getChangedTarget cf (fsys st) (path_parse (unbackslash t)) (unbackslash t) = Inr ts
           \<longrightarrow> set ts \<subseteq> set files)"
proof -
  note s = allFiles_set[OF assms]
  have "src cf @ ''/'' @ sub @ ''/'' @ rest \<notin> set files"
    using s no_slash_sub[of _ "src cf" sub rest] by auto
  moreover have "html cf en None st = html cf en (Some files) st"
    using assms by (rule html_None)
  moreover have "\<forall>d. ext (path_parse (unbackslash t)) = ''.json'' \<and> getData cf en (fsys st) = Inr d
           \<longrightarrow> fst (classify cf en ev t st) = Inr files"
    using assms by (simp add: classify_json)
  moreover have "\<forall>ts. is_partial (unbackslash t) \<and>
             getChangedTarget cf (fsys st) (path_parse (unbackslash t)) (unbackslash t) = Inr ts
           \<longrightarrow> set ts \<subseteq> set files"
    using getChangedTarget_subset[OF _ assms] by (auto simp: is_partial_def)
  ultimately show ?thesis using s by blast
qed

theorem C10_enumeration_witness:
  "allFiles ex_cfg (fsys ex_st) =
     Inr [''/site/index.edge'', ''/site/_footer.edge'', ''/site/_layout.edge'', ''/site/about.edge'']
   \<and> ''/site/sub/about.edge'' \<notin>
       set [''/site/index.edge'', ''/site/_footer.edge'', ''/site/_layout.edge'', ''/site/about.edge'']
   \<and> html ex_cfg ex_env None ex_st =
       html ex_cfg ex_env
         (Some [''/site/index.edge'', ''/site/_footer.edge'', ''/site/_layout.edge'', ''/site/about.edge''])
         ex_st"
  using C10_enumeration[OF ex_allFiles, of "''sub''" "''about.edge''" ex_env] ex_allFiles
  by (simp add: ex_cfg_def)

text \<open>
  C10, the counterexample: an \<^verbatim>\<open>add\<close> event on the page \<^verbatim>\<open>/site/sub/about.edge\<close>, which
  lies in a subdirectory of the source directory, is dispatched to \<open>html\<close> and ends with a
  file written at \<^verbatim>\<open>/out/sub/about.html\<close>. (The template engine is given the base name
  only, so the text written is that of \<^verbatim>\<open>/site/about.edge\<close>.)
\<close>

theorem C10_subdirectory_counterexample:
  "on_event ex_cfg ex_env Add ''/site/sub/about.edge'' ex_st =
     (Inr (),
      ex_st\<lparr>fsys := ex_fs @ [(''/out/sub/about.html'', File ''about{}'')],
            console := [Starting ''html'', Finished ''html'']\<rparr>)"
  by (simp add: ex_defs run_defs)

section \<open>Impact sets (C1, C2, C3)\<close>

lemma getChangedTarget_partial:
  assumes "startsWith (name changed) ''_''" and "allFiles cf fs = Inr files"
  shows "(list_all (\<lambda>f. \<exists>c. fs_readFile fs f = Inr c) files \<longrightarrow>
            getChangedTarget cf fs changed t =
              Inr (filter (\<lambda>f. \<exists>c. fs_readFile fs f = Inr c \<and> sublist (name changed) c) files))
       \<and> (\<not> list_all (\<lambda>f. \<exists>c. fs_readFile fs f = Inr c) files \<longrightarrow>
            (\<exists>e. getChangedTarget cf fs changed t = Inl e))"
proof (cases "util_readFile fs files")
  case (Inl e)
  then have "\<not> list_all (\<lambda>f. \<exists>c. fs_readFile fs f = Inr c) files"
  proof -
    { assume a: "list_all (\<lambda>f. \<exists>c. fs_readFile fs f = Inr c) files"
      then have "\<exists>cs. map (fs_readFile fs) files = map Inr cs"
      proof (induction files)
        case Nil
        then show ?case by simp
      next
        case (Cons f files)
        then obtain c cs where "fs_readFile fs f = Inr c" "map (fs_readFile fs) files = map Inr cs"
          by auto
        then have "map (fs_readFile fs) (f # files) = map Inr (c # cs)" by simp
        then show ?case by blast
      qed
      then have False using Inl by (auto simp: util_readFile_def promise_all_map_Inr) }
    then show ?thesis by blast
  qed
  with Inl assms show ?thesis by (simp add: getChangedTarget_def)
next
  case (Inr cs)
  then have m: "map (fs_readFile fs) files = map Inr cs"
    by (simp add: util_readFile_def promise_all_Inr_D)
  have "list_all (\<lambda>f. \<exists>c. fs_readFile fs f = Inr c) files"
    unfolding list_all_iff
  proof
    fix f assume "f \<in> set files"
    then have "fs_readFile fs f \<in> set (map Inr cs)" using m by (metis image_eqI list.set_map)
    then show "\<exists>c. fs_readFile fs f = Inr c" by auto
  qed
  moreover have "getChangedTarget cf fs changed t =
      Inr (filter (\<lambda>f. \<exists>c. fs_readFile fs f = Inr c \<and> sublist (name changed) c) files)"
    using assms Inr scan_contents_read[of fs files cs "name changed"]
    by (simp add: getChangedTarget_def util_readFile_def)
  ultimately show ?thesis by simp
qed

lemma sublist_eval: "sublist n s = str_includes s n"
  by (simp add: str_includes_sublist)

text \<open>
  C1, as the code has it. For an \<^verbatim>\<open>add\<close> or \<^verbatim>\<open>change\<close> event on a partial \<open>P\<close> (an
  \<^verbatim>\<open>.edge\<close> path whose name starts with an underscore), with \<open>files\<close> the enumeration of
  the source directory: \<open>files\<close> are all entries directly inside the source directory that
  end in \<^verbatim>\<open>.edge\<close>, partials included and subdirectories not entered; if every one of them
  can be read, the impact set is the list of those whose content contains the name of \<open>P\<close>
  without its extension as a contiguous substring, in directory order, and the state is
  unchanged; if one of them cannot be read, the resolution fails and there is no impact
  set.
\<close>

theorem C1_partial_impact:
  assumes "ev = Add \<or> ev = Change"
    and "ext (path_parse (unbackslash t)) = ''.edge''"
    and "is_partial (unbackslash t)"
    and "allFiles cf (fsys st) = Inr files"
  shows "set files = {f. \<exists>n. f = src cf @ ''/'' @ n \<and> CHR ''/'' \<notin> set n \<and> endsWith n ''.edge''
                        \<and> map_of (fsys st) f \<noteq> None}
     \<and> (list_all (\<lambda>f. \<exists>c. fs_readFile (fsys st) f = Inr c) files \<longrightarrow>
          classify cf en ev t st =
            (Inr (filter (\<lambda>f. \<exists>c. fs_readFile (fsys st) f = Inr c
                               \<and> sublist (name (path_parse (unbackslash t))) c) files), st))
     \<and> (\<not> list_all (\<lambda>f. \<exists>c. fs_readFile (fsys st) f = Inr c) files \<longrightarrow>
          (\<exists>e. classify cf en ev t st = (Inl e, st)))"
proof -
  have p: "startsWith (name (path_parse (unbackslash t))) ''_''"
    using assms(3) by (simp add: is_partial_def)
  have c: "classify cf en ev t st =
      (getChangedTarget cf (fsys st) (path_parse (unbackslash t)) (unbackslash t), st)"
    using assms(1,2) by (rule classify_edge_change)
  show ?thesis
    using getChangedTarget_partial[OF p assms(4), of "unbackslash t"] allFiles_set[OF assms(4)]
    unfolding c by simp
qed

theorem C1_partial_impact_witness:
  "is_partial ''/site/_footer.edge''
   \<and> allFiles ex_cfg (fsys ex_st) =
       Inr [''/site/index.edge'', ''/site/_footer.edge'', ''/site/_layout.edge'', ''/site/about.edge'']
   \<and> classify ex_cfg ex_env Change ''/site/_footer.edge'' ex_st =
       (Inr [''/site/index.edge'', ''/site/_layout.edge''], ex_st)"
proof -
  have h1: "Change = Add \<or> Change = Change" by simp
  have h2: "ext (path_parse (unbackslash ''/site/_footer.edge'')) = ''.edge''"
    by (simp add: run_defs)
  have h3: "is_partial (unbackslash ''/site/_footer.edge'')"
    by (simp add: run_defs)
  have u: "unbackslash ''/site/_footer.edge'' = ''/site/_footer.edge''"
    by (simp add: unbackslash_def)
  have n: "name (path_parse ''/site/_footer.edge'') = ''_footer''"
    by (simp add: run_defs)
  have r: "list_all (\<lambda>f. \<exists>c. fs_readFile (fsys ex_st) f = Inr c)
      [''/site/index.edge'', ''/site/_footer.edge'', ''/site/_layout.edge'', ''/site/about.edge'']"
    by (simp add: ex_defs fs_readFile_def)
  show ?thesis
    using C1_partial_impact[OF h1 h2 h3 ex_allFiles, of ex_env] r h3 ex_allFiles
    unfolding u n
    by (simp add: sublist_eval ex_defs fs_readFile_def)
qed

text \<open>
  C1, the counterexample: the claim excludes partials from the impact set. On the small
  site, a change of \<^verbatim>\<open>_footer.edge\<close> has the partial \<^verbatim>\<open>_layout.edge\<close> in its impact set,
  because its text names the footer.
\<close>

theorem C1_partial_in_impact_counterexample:
  "getChangedTarget ex_cfg (fsys ex_st) (path_parse ''/site/_footer.edge'') ''/site/_footer.edge'' =
     Inr [''/site/index.edge'', ''/site/_layout.edge'']
   \<and> is_partial ''/site/_layout.edge''"
  by (simp add: ex_defs run_defs)

text \<open>
  C2. For an \<^verbatim>\<open>add\<close> or \<^verbatim>\<open>change\<close> event on a page \<open>P\<close> (an \<^verbatim>\<open>.edge\<close> path whose name does
  not start with an underscore), the impact set is the one-element list of \<open>P\<close>, nothing
  is read and the state is unchanged; that list is what \<open>html\<close> is called with. \<open>P\<close> is the
  path of the event in the form the program works with, backslashes written as slashes.
\<close>

theorem C2_page_impact:
  assumes "ev = Add \<or> ev = Change"
    and "ext (path_parse (unbackslash t)) = ''.edge''"
    and "\<not> is_partial (unbackslash t)"
  shows "classify cf en ev t st = (Inr [unbackslash t], st)
     \<and> on_event cf en ev t st = html cf en (Some [unbackslash t]) st"
proof -
  have "classify cf en ev t st = (Inr [unbackslash t], st)"
    using assms by (simp add: classify_edge_change getChangedTarget_def is_partial_def)
  then show ?thesis by (simp add: on_event_def)
qed

theorem C2_page_impact_witness:
  "\<not> is_partial ''/site/index.edge''
   \<and> classify ex_cfg ex_env Change ''/site/index.edge'' ex_st = (Inr [''/site/index.edge''], ex_st)"
proof -
  have h1: "Change = Add \<or> Change = Change" by simp
  have h2: "ext (path_parse (unbackslash ''/site/index.edge'')) = ''.edge''"
    by (simp add: run_defs)
  have h3: "\<not> is_partial (unbackslash ''/site/index.edge'')"
    by (simp add: run_defs)
  have u: "unbackslash ''/site/index.edge'' = ''/site/index.edge''"
    by (simp add: unbackslash_def)
  show ?thesis
    using C2_page_impact[OF h1 h2 h3, of ex_cfg ex_env ex_st] h3 unfolding u by simp
qed

text \<open>
  What counts as an \<^verbatim>\<open>.edge\<close> file for the handler is the parsed extension. A file named
  just \<^verbatim>\<open>.edge\<close> has none: the enumeration lists it, the handler ignores its events.
\<close>

lemma dot_edge_ignored:
  "classify cf en ev ''/site/.edge'' st = (Inr [], st)"
  by (simp add: classify_def path_parse_def basename_def unbackslash_def)

text \<open>
  C3, as the code has it. For an event of any kind on a path with the extension
  \<^verbatim>\<open>.json\<close>: when the data file under the resolved source directory can be read and
  parsed and the source directory can be listed, \<open>data\<close> becomes the freshly parsed
  content, the impact set is the enumeration of the source directory, and \<open>html\<close> is called
  with it in the new state. The enumeration holds every \<^verbatim>\<open>.edge\<close> entry directly inside
  the source directory, pages and partials alike.
\<close>

theorem C3_config_rebuild:
  assumes "ext (path_parse (unbackslash t)) = ''.json''"
    and "getData cf en (fsys st) = Inr d"
    and "allFiles cf (fsys st) = Inr files"
  shows "(\<exists>s. fs_readFile (fsys st) (resolve en (src cf) @ ''/data.json'') = Inr s
              \<and> parse_json en s = Some d)
     \<and> classify cf en ev t st = (Inr files, st\<lparr>data := d\<rparr>)
     \<and> on_event cf en ev t st = html cf en (Some files) (st\<lparr>data := d\<rparr>)
     \<and> set files = {f. \<exists>n. f = src cf @ ''/'' @ n \<and> CHR ''/'' \<notin> set n \<and> endsWith n ''.edge''
                        \<and> map_of (fsys st) f \<noteq> None}"
proof -
  have a: "\<exists>s. fs_readFile (fsys st) (resolve en (src cf) @ ''/data.json'') = Inr s
              \<and> parse_json en s = Some d"
    using assms(2) by (auto simp: getData_def util_requireUncached_def split: sum.splits option.splits)
  have b: "classify cf en ev t st = (Inr files, st\<lparr>data := d\<rparr>)"
    using assms by (simp add: classify_json)
  then have c: "on_event cf en ev t st = html cf en (Some files) (st\<lparr>data := d\<rparr>)"
    by (simp add: on_event_def)
  show ?thesis using a b c allFiles_set[OF assms(3)] by blast
qed

theorem C3_config_rebuild_witness:
  "getData ex_cfg ex_env (fsys ex_badjson) = Inl ConfigError
   \<and> getData ex_cfg ex_env (fsys ex_st) = Inr ''{}''
   \<and> classify ex_cfg ex_env Unlink ''/site/other.json'' (ex_st\<lparr>data := ''{old}''\<rparr>) =
       (Inr [''/site/index.edge'', ''/site/_footer.edge'', ''/site/_layout.edge'', ''/site/about.edge''],
        ex_st)"
proof -
  have h1: "ext (path_parse (unbackslash ''/site/other.json'')) = ''.json''"
    by (simp add: run_defs)
  have h2: "getData ex_cfg ex_env (fsys (ex_st\<lparr>data := ''{old}''\<rparr>)) = Inr ''{}''"
    by (simp add: ex_defs run_defs)
  have h3: "allFiles ex_cfg (fsys (ex_st\<lparr>data := ''{old}''\<rparr>)) =
      Inr [''/site/index.edge'', ''/site/_footer.edge'', ''/site/_layout.edge'', ''/site/about.edge'']"
    using ex_allFiles by simp
  have e: "ex_st\<lparr>data := ''{old}'', data := ''{}''\<rparr> = ex_st" by (simp add: ex_st_def)
  have g: "getData ex_cfg ex_env (fsys ex_badjson) = Inl ConfigError"
    by (simp add: ex_defs run_defs)
  show ?thesis
    using C3_config_rebuild[OF h1 h2 h3, of Unlink] h2 g unfolding e by simp
qed

text \<open>
  C3, the counterexample: the claim has only pages in the impact set. On the small site a
  change of \<^verbatim>\<open>data.json\<close> yields an impact set with the partials \<^verbatim>\<open>_footer.edge\<close> and
  \<^verbatim>\<open>_layout.edge\<close> in it.
\<close>

theorem C3_partials_rebuilt_counterexample:
  "classify ex_cfg ex_env Change ''/site/data.json'' ex_st =
     (Inr [''/site/index.edge'', ''/site/_footer.edge'', ''/site/_layout.edge'', ''/site/about.edge''],
      ex_st)
   \<and> is_partial ''/site/_footer.edge'' \<and> is_partial ''/site/_layout.edge''"
  by (simp add: ex_defs run_defs)

section \<open>Writing a batch (C4, C6)\<close>

lemma renderToHtml_console [simp]:
  "renderToHtml cf en (st\<lparr>console := x\<rparr>) = renderToHtml cf en st"
  by (rule ext) (simp add: renderToHtml_def)

lemma fs_writeFile_can_write:
  "can_write fs p \<Longrightarrow> fs_writeFile fs p c = Inr (AList.update p (File c) fs)"
  by (auto simp: fs_writeFile_def can_write_def split: if_splits)

lemma fs_writeFile_cannot:
  "\<not> can_write fs p \<Longrightarrow> \<exists>e. fs_writeFile fs p c = Inl e"
  by (auto simp: fs_writeFile_def can_write_def split: if_splits)

lemma can_write_update:
  "can_write fs q \<Longrightarrow> can_write (AList.update q (File c) fs) p = can_write fs p"
  by (auto simp: can_write_def update_conv' split: if_splits)

lemma map_of_rev_Cons:
  "map_of (rev ((k, v) # xs)) p =
     (case map_of (rev xs) p of Some w \<Rightarrow> Some w | None \<Rightarrow> if p = k then Some v else None)"
  by (simp add: map_add_def split: option.splits)

lemma util_writeFile_map_of:
  "map_of (snd (util_writeFile fs ps cs)) p =
     (if can_write fs p
      then (case map_of (rev (zip ps cs)) p of Some c \<Rightarrow> Some (File c) | None \<Rightarrow> map_of fs p)
      else map_of fs p)"
proof (induction fs ps cs rule: util_writeFile.induct)
  case (1 fs q ps c cs)
  show ?case
  proof (cases "can_write fs q")
    case True
    then have w: "fs_writeFile fs q c = Inr (AList.update q (File c) fs)"
      by (rule fs_writeFile_can_write)
    have "map_of (snd (util_writeFile (AList.update q (File c) fs) ps cs)) p =
      (if can_write (AList.update q (File c) fs) p
       then (case map_of (rev (zip ps cs)) p of Some c \<Rightarrow> Some (File c)
             | None \<Rightarrow> map_of (AList.update q (File c) fs) p)
       else map_of (AList.update q (File c) fs) p)"
      using 1(2)[OF w] .
    then show ?thesis
      using True w can_write_update[OF True, of c p]
      by (auto simp: map_of_rev_Cons update_conv' split: option.splits simp del: rev.simps)
  next
    case False
    then obtain e where w: "fs_writeFile fs q c = Inl e"
      using fs_writeFile_cannot by blast
    show ?thesis
      using 1(1)[OF w] False w
      by (auto simp: map_of_rev_Cons split: option.splits simp del: rev.simps)
  qed
qed simp_all

lemma util_writeFile_error:
  "length ps = length cs \<Longrightarrow>
   (fst (util_writeFile fs ps cs) = None) = list_all (can_write fs) ps"
proof (induction fs ps cs rule: util_writeFile.induct)
  case (1 fs q ps c cs)
  show ?case
  proof (cases "can_write fs q")
    case True
    then have w: "fs_writeFile fs q c = Inr (AList.update q (File c) fs)"
      by (rule fs_writeFile_can_write)
    have "list_all (can_write (AList.update q (File c) fs)) ps = list_all (can_write fs) ps"
      using can_write_update[OF True] by (simp add: list_all_iff)
    then show ?thesis using 1(2)[OF w] 1(3) True w by simp
  next
    case False
    then obtain e where w: "fs_writeFile fs q c = Inl e"
      using fs_writeFile_cannot by blast
    then show ?thesis using False by simp
  qed
qed simp_all

lemma map_of_rev_zip_last:
  assumes "i < length ps" "length ps = length cs"
    and "\<forall>j. i < j \<and> j < length ps \<longrightarrow> ps ! j \<noteq> ps ! i"
  shows "map_of (rev (zip ps cs)) (ps ! i) = Some (cs ! i)"
  using assms
proof (induction ps arbitrary: i cs)
  case Nil
  then show ?case by simp
next
  case (Cons q ps)
  then obtain c cs' where cs: "cs = c # cs'" by (cases cs) auto
  show ?case
  proof (cases i)
    case 0
    have "q \<notin> set ps"
    proof
      assume "q \<in> set ps"
      then obtain k where "k < length ps" "ps ! k = q" by (auto simp: in_set_conv_nth)
      then show False using Cons.prems(3)[rule_format, of "Suc k"] 0 by simp
    qed
    then have "map_of (rev (zip ps cs')) q = None"
      by (auto simp: map_of_eq_None_iff dest: set_zip_leftD)
    then show ?thesis using 0 cs by (simp add: map_add_def)
  next
    case (Suc k)
    have "map_of (rev (zip ps cs')) (ps ! k) = Some (cs' ! k)"
    proof (rule Cons.IH)
      show "k < length ps" using Cons.prems(1) Suc by simp
      show "length ps = length cs'" using Cons.prems(2) cs by simp
      show "\<forall>j. k < j \<and> j < length ps \<longrightarrow> ps ! j \<noteq> ps ! k"
      proof (intro allI impI)
        fix j assume "k < j \<and> j < length ps"
        then show "ps ! j \<noteq> ps ! k"
          using Cons.prems(3)[rule_format, of "Suc j"] Suc by simp
      qed
    qed
    then show ?thesis using Suc cs by (simp add: map_add_def)
  qed
qed

lemma map_of_rev_zip_Some:
  "map_of (rev (zip ps cs)) p = Some c \<Longrightarrow> \<exists>i < length ps. i < length cs \<and> ps ! i = p \<and> cs ! i = c"
proof -
  assume "map_of (rev (zip ps cs)) p = Some c"
  then have "(p, c) \<in> set (zip ps cs)" by (auto dest: map_of_SomeD)
  then show ?thesis by (auto simp: set_zip)
qed

lemma html_Some_render_fail:
  assumes "f \<in> set fl" and "renderToHtml cf en st f = Inl e"
  shows "\<exists>e'. html cf en (Some fl) st = (Inl e', st\<lparr>console := console st @ [Starting ''html'']\<rparr>)"
proof -
  have "Inl e \<in> set (map (renderToHtml cf en st) fl)"
    using assms by (metis image_eqI list.set_map)
  then obtain e' where "promise_all (map (renderToHtml cf en st) fl) = Inl e'"
    using promise_all_Inl by blast
  then show ?thesis by (simp add: html_def util_starting_def util_finished_def Let_def)
qed

lemma html_Some_rendered:
  assumes "map (renderToHtml cf en st) fl = map Inr cs"
  shows "html cf en (Some fl) st =
     (case util_writeFile (fsys st) (map (setDest cf) fl) cs of
        (Some e, fs') \<Rightarrow> (Inl e, st\<lparr>fsys := fs', console := console st @ [Starting ''html'']\<rparr>)
      | (None, fs') \<Rightarrow>
          (Inr (), st\<lparr>fsys := fs', console := console st @ [Starting ''html'', Finished ''html'']\<rparr>))"
  using assms by (simp add: html_def util_starting_def util_finished_def Let_def promise_all_map_Inr split: prod.splits option.splits)

lemma html_Some_cases:
  "(\<exists>e. html cf en (Some fl) st = (Inl e, st\<lparr>console := console st @ [Starting ''html'']\<rparr>))
   \<or> (\<exists>cs. map (renderToHtml cf en st) fl = map Inr cs)"
proof (cases "promise_all (map (renderToHtml cf en st) fl)")
  case (Inl e)
  then show ?thesis by (simp add: html_def util_starting_def util_finished_def Let_def)
next
  case (Inr cs)
  then show ?thesis using promise_all_Inr_D by blast
qed

lemma html_Some_changed:
  assumes "html cf en (Some fl) st = (r, st')"
    and "map_of (fsys st') p \<noteq> map_of (fsys st) p"
  shows "\<exists>f c. f \<in> set fl \<and> p = setDest cf f \<and> renderToHtml cf en st f = Inr c
            \<and> map_of (fsys st') p = Some (File c)"
proof -
  from html_Some_cases[of cf en fl st] assms obtain cs
    where cs: "map (renderToHtml cf en st) fl = map Inr cs"
    by auto
  then have len: "length cs = length fl" by (metis length_map)
  have fs': "fsys st' = snd (util_writeFile (fsys st) (map (setDest cf) fl) cs)"
    using html_Some_rendered[OF cs] assms(1) by (auto split: prod.splits option.splits)
  from assms(2) obtain c where c: "map_of (rev (zip (map (setDest cf) fl) cs)) p = Some c"
    and new: "map_of (fsys st') p = Some (File c)"
    unfolding fs' util_writeFile_map_of by (auto split: if_splits option.splits)
  from map_of_rev_zip_Some[OF c] obtain i where i: "i < length fl" "setDest cf (fl ! i) = p" "cs ! i = c"
    by auto
  have "renderToHtml cf en st (fl ! i) = Inr (cs ! i)"
    using cs i(1) len by (metis nth_map)
  then show ?thesis using i new by (metis nth_mem)
qed

lemma html_data: "html cf en files st = (r, st') \<Longrightarrow> data st' = data st"
  by (auto simp: html_def util_starting_def util_finished_def Let_def split: sum.splits prod.splits option.splits)

lemma html_None_fail:
  "allFiles cf (fsys st) = Inl e \<Longrightarrow>
   html cf en None st = (Inl e, st\<lparr>console := console st @ [Starting ''html'']\<rparr>)"
  by (simp add: html_def util_starting_def util_finished_def Let_def)

lemma ex_full_build: "html ex_cfg ex_env None ex_st = (Inr (), ex_built)"
  by (simp add: ex_defs run_defs)

lemma html_changed:
  assumes "html cf en files st = (r, st')"
    and "map_of (fsys st') p \<noteq> map_of (fsys st) p"
  shows "\<exists>fl f c. (case files of None \<Rightarrow> allFiles cf (fsys st) | Some l \<Rightarrow> Inr l) = Inr fl
            \<and> f \<in> set fl \<and> p = setDest cf f \<and> renderToHtml cf en st f = Inr c
            \<and> map_of (fsys st') p = Some (File c)"
proof (cases files)
  case (Some l)
  then show ?thesis using html_Some_changed[of cf en l st r st' p] assms by auto
next
  case None
  show ?thesis
  proof (cases "allFiles cf (fsys st)")
    case (Inl e)
    then have "st' = st\<lparr>console := console st @ [Starting ''html'']\<rparr>"
      using assms(1) None by (simp add: html_None_fail)
    then show ?thesis using assms(2) by simp
  next
    case (Inr l)
    then have "html cf en (Some l) st = (r, st')"
      using assms(1) None html_None by metis
    then show ?thesis using html_Some_changed[of cf en l st r st' p] assms(2) None Inr by auto
  qed
qed

lemma html_Some_Nil:
  "html cf en (Some []) st =
     (Inr (), st\<lparr>console := console st @ [Starting ''html'', Finished ''html'']\<rparr>)"
  by (simp add: html_def util_starting_def util_finished_def Let_def)

lemma classify_fsys:
  "classify cf en ev t st = (x, st1) \<Longrightarrow>
   map_of (fsys st1) p = map_of (fsys st) p \<or> map_of (fsys st1) p = None"
  by (cases ev)
     (auto simp: classify_def Let_def util_rm_def map_of_fs_rm split: if_splits sum.splits)

lemma classify_Inl_fsys:
  "classify cf en ev t st = (Inl e, st1) \<Longrightarrow> fsys st1 = fsys st"
  by (cases ev) (auto simp: classify_def Let_def split: if_splits sum.splits)

lemma on_event_changed:
  assumes "on_event cf en ev t st = (r, st')"
    and "map_of (fsys st') p \<noteq> map_of (fsys st) p"
    and "map_of (fsys st') p \<noteq> None"
  shows "\<exists>targets st1 f c. classify cf en ev t st = (Inr targets, st1)
            \<and> f \<in> set targets \<and> p = setDest cf f \<and> renderToHtml cf en st1 f = Inr c
            \<and> map_of (fsys st') p = Some (File c)"
proof -
  obtain x st1 where c: "classify cf en ev t st = (x, st1)" by (cases "classify cf en ev t st")
  show ?thesis
  proof (cases x)
    case (Inl e)
    then have "st' = st1" using assms(1) c by (simp add: on_event_def)
    then show ?thesis using classify_Inl_fsys c Inl assms(2) by metis
  next
    case (Inr targets)
    then have h: "html cf en (Some targets) st1 = (r, st')"
      using assms(1) c by (simp add: on_event_def)
    have "map_of (fsys st') p \<noteq> map_of (fsys st1) p"
      using classify_fsys[OF c, of p] assms(2,3) by auto
    from html_Some_changed[OF h this] show ?thesis using c Inr by blast
  qed
qed

text \<open>
  C4, as the code has it. The claimed invariant does not hold (see the counterexample
  below); what holds is that nothing is written but rendered output at destination paths
  of the batch. If an entry of the file system differs after \<open>html\<close>, then it is a file
  at \<open>setDest f\<close> for a file \<open>f\<close> of the batch (the given list, or the enumeration of the
  source directory for a full build) and holds the rendering of such an \<open>f\<close>. If an entry
  is present and new or different after the handling of an event, then it is a file at
  \<open>setDest f\<close> for a target \<open>f\<close> of that event and holds its rendering. The batch of a
  page event is the page alone (C2); the enumeration holds the partials as well (C10).
\<close>

theorem C4_written_paths:
  "(html cf en files st = (r, st') \<and> map_of (fsys st') p \<noteq> map_of (fsys st) p \<longrightarrow>
      (\<exists>fl f c. (case files of None \<Rightarrow> allFiles cf (fsys st) | Some l \<Rightarrow> Inr l) = Inr fl
          \<and> f \<in> set fl \<and> p = setDest cf f \<and> renderToHtml cf en st f = Inr c
          \<and> map_of (fsys st') p = Some (File c)))
   \<and> (on_event cf en ev t st = (r2, st2) \<and> map_of (fsys st2) p \<noteq> map_of (fsys st) p
        \<and> map_of (fsys st2) p \<noteq> None \<longrightarrow>
      (\<exists>targets st1 f c. classify cf en ev t st = (Inr targets, st1)
          \<and> f \<in> set targets \<and> p = setDest cf f \<and> renderToHtml cf en st1 f = Inr c
          \<and> map_of (fsys st2) p = Some (File c)))"
  using html_changed[of cf en files st r st' p] on_event_changed[of cf en ev t st r2 st2 p]
  by blast

theorem C4_written_paths_witness:
  "html ex_cfg ex_env None ex_st = (Inr (), ex_built)
   \<and> map_of (fsys ex_built) ''/out/index.html'' \<noteq> map_of (fsys ex_st) ''/out/index.html''
   \<and> (\<exists>f c. f \<in> set [''/site/index.edge'', ''/site/_footer.edge'', ''/site/_layout.edge'',
                        ''/site/about.edge'']
          \<and> ''/out/index.html'' = setDest ex_cfg f \<and> renderToHtml ex_cfg ex_env ex_st f = Inr c
          \<and> map_of (fsys ex_built) ''/out/index.html'' = Some (File c))
   \<and> map_of (fsys (snd (on_event ex_cfg ex_env Change ''/site/about.edge'' ex_st)))
        ''/out/about.html'' = Some (File ''about{}'')
   \<and> (\<exists>targets st1 f c.
          classify ex_cfg ex_env Change ''/site/about.edge'' ex_st = (Inr targets, st1)
          \<and> f \<in> set targets \<and> ''/out/about.html'' = setDest ex_cfg f
          \<and> renderToHtml ex_cfg ex_env st1 f = Inr c
          \<and> map_of (fsys (snd (on_event ex_cfg ex_env Change ''/site/about.edge'' ex_st)))
               ''/out/about.html'' = Some (File c))"
proof -
  let ?o = "on_event ex_cfg ex_env Change ''/site/about.edge'' ex_st"
  have h: "map_of (fsys ex_built) ''/out/index.html'' \<noteq> map_of (fsys ex_st) ''/out/index.html''"
    by (simp add: ex_defs)
  have o: "?o = (fst ?o, snd ?o)" by simp
  have n: "map_of (fsys (snd ?o)) ''/out/about.html'' = Some (File ''about{}'')"
    by (simp add: ex_defs run_defs)
  have b: "map_of (fsys ex_st) ''/out/about.html'' = None"
    by (simp add: ex_defs)
  note t1 = C4_written_paths[where cf = ex_cfg and en = ex_env and files = None and st = ex_st
      and r = "Inr ()" and st' = ex_built and p = "''/out/index.html''", THEN conjunct1]
  note t2 = C4_written_paths[where cf = ex_cfg and en = ex_env and st = ex_st and ev = Change
      and t = "''/site/about.edge''" and ?r2.0 = "fst ?o" and ?st2.0 = "snd ?o"
      and p = "''/out/about.html''", THEN conjunct2]
  have a1: "\<exists>fl f c. (case None of None \<Rightarrow> allFiles ex_cfg (fsys ex_st) | Some l \<Rightarrow> Inr l) = Inr fl
          \<and> f \<in> set fl \<and> ''/out/index.html'' = setDest ex_cfg f
          \<and> renderToHtml ex_cfg ex_env ex_st f = Inr c
          \<and> map_of (fsys ex_built) ''/out/index.html'' = Some (File c)"
    using t1 ex_full_build h by blast
  have a2: "\<exists>targets st1 f c.
          classify ex_cfg ex_env Change ''/site/about.edge'' ex_st = (Inr targets, st1)
          \<and> f \<in> set targets \<and> ''/out/about.html'' = setDest ex_cfg f
          \<and> renderToHtml ex_cfg ex_env st1 f = Inr c
          \<and> map_of (fsys (snd ?o)) ''/out/about.html'' = Some (File c)"
    using t2 o n b by simp
  from a1 have "\<exists>f c. f \<in> set [''/site/index.edge'', ''/site/_footer.edge'', ''/site/_layout.edge'',
                        ''/site/about.edge'']
          \<and> ''/out/index.html'' = setDest ex_cfg f \<and> renderToHtml ex_cfg ex_env ex_st f = Inr c
          \<and> map_of (fsys ex_built) ''/out/index.html'' = Some (File c)"
    using ex_allFiles by simp
  with a2 h n ex_full_build show ?thesis by blast
qed

text \<open>
  C4, the counterexample: a full build of the small site writes \<^verbatim>\<open>/out/_footer.html\<close>,
  the destination path of the partial \<^verbatim>\<open>/site/_footer.edge\<close>, which did not exist before.
\<close>

theorem C4_partial_written_counterexample:
  "html ex_cfg ex_env None ex_st = (Inr (), ex_built)
   \<and> is_partial ''/site/_footer.edge''
   \<and> setDest ex_cfg ''/site/_footer.edge'' = ''/out/_footer.html''
   \<and> map_of (fsys ex_st) ''/out/_footer.html'' = None
   \<and> map_of (fsys ex_built) ''/out/_footer.html'' = Some (File ''bye{}'')"
  by (simp add: ex_defs run_defs)

text \<open>
  C6, as the code has it. If the rendering of any file of the batch fails, \<open>html\<close> rejects
  with one error before any write: the file system is unchanged and only the starting
  line is printed. If every file renders, all writes are started: the file system is the
  one \<open>util_writeFile\<close> leaves, \<open>html\<close> rejects exactly when some destination cannot be
  written, and every file whose destination can be written, and is not written again by a
  later file of the batch, has its rendering at its destination, whatever happened to the
  other writes. Errors are not collected per item: the result holds at most one.
\<close>

theorem C6_batch_failure:
  "((\<exists>f e. f \<in> set fl \<and> renderToHtml cf en st f = Inl e) \<longrightarrow>
      (\<exists>e. html cf en (Some fl) st =
             (Inl e, st\<lparr>console := console st @ [Starting ''html'']\<rparr>)))
   \<and> (map (renderToHtml cf en st) fl = map Inr cs \<longrightarrow>
        fsys (snd (html cf en (Some fl) st)) =
          snd (util_writeFile (fsys st) (map (setDest cf) fl) cs)
        \<and> ((\<exists>e. fst (html cf en (Some fl) st) = Inl e) =
             (\<not> list_all (can_write (fsys st)) (map (setDest cf) fl)))
        \<and> (\<forall>i. i < length fl \<and> can_write (fsys st) (setDest cf (fl ! i))
               \<and> (\<forall>j. i < j \<and> j < length fl \<longrightarrow> setDest cf (fl ! j) \<noteq> setDest cf (fl ! i))
               \<longrightarrow> map_of (fsys (snd (html cf en (Some fl) st))) (setDest cf (fl ! i)) =
                     Some (File (cs ! i))))"
proof (intro conjI impI)
  assume "\<exists>f e. f \<in> set fl \<and> renderToHtml cf en st f = Inl e"
  then show "\<exists>e. html cf en (Some fl) st =
             (Inl e, st\<lparr>console := console st @ [Starting ''html'']\<rparr>)"
    using html_Some_render_fail by blast
next
  assume cs: "map (renderToHtml cf en st) fl = map Inr cs"
  then have len: "length fl = length cs" by (metis length_map)
  note h = html_Some_rendered[OF cs]
  show fs': "fsys (snd (html cf en (Some fl) st)) =
          snd (util_writeFile (fsys st) (map (setDest cf) fl) cs)"
    unfolding h by (simp split: prod.splits option.splits)
  have "(fst (util_writeFile (fsys st) (map (setDest cf) fl) cs) = None) =
      list_all (can_write (fsys st)) (map (setDest cf) fl)"
    by (rule util_writeFile_error) (simp add: len)
  then show "(\<exists>e. fst (html cf en (Some fl) st) = Inl e) =
             (\<not> list_all (can_write (fsys st)) (map (setDest cf) fl))"
    unfolding h by (auto split: prod.splits option.splits)
  show "\<forall>i. i < length fl \<and> can_write (fsys st) (setDest cf (fl ! i))
               \<and> (\<forall>j. i < j \<and> j < length fl \<longrightarrow> setDest cf (fl ! j) \<noteq> setDest cf (fl ! i))
               \<longrightarrow> map_of (fsys (snd (html cf en (Some fl) st))) (setDest cf (fl ! i)) =
                     Some (File (cs ! i))"
  proof (intro allI impI)
    fix i
    assume a: "i < length fl \<and> can_write (fsys st) (setDest cf (fl ! i))
               \<and> (\<forall>j. i < j \<and> j < length fl \<longrightarrow> setDest cf (fl ! j) \<noteq> setDest cf (fl ! i))"
    have "map_of (rev (zip (map (setDest cf) fl) cs)) (map (setDest cf) fl ! i) = Some (cs ! i)"
      by (rule map_of_rev_zip_last) (use a len in auto)
    then show "map_of (fsys (snd (html cf en (Some fl) st))) (setDest cf (fl ! i)) =
                     Some (File (cs ! i))"
      unfolding fs' util_writeFile_map_of using a by simp
  qed
qed

theorem C6_batch_failure_witness:
  "renderToHtml ex_cfg ex_env ex_broken ''/site/draft.edge'' = Inl RenderError
   \<and> (\<exists>e. html ex_cfg ex_env (Some [''/site/index.edge'', ''/site/draft.edge'']) ex_broken =
            (Inl e, ex_broken\<lparr>console := [Starting ''html'']\<rparr>))
   \<and> map (renderToHtml ex_cfg ex_env ex_blocked) [''/site/index.edge'', ''/site/about.edge''] =
       map Inr [''<p>@include(_footer)</p>{}'', ''about{}'']
   \<and> (\<exists>e. fst (html ex_cfg ex_env (Some [''/site/index.edge'', ''/site/about.edge'']) ex_blocked) =
            Inl e)
   \<and> map_of (fsys (snd (html ex_cfg ex_env (Some [''/site/index.edge'', ''/site/about.edge''])
                          ex_blocked))) ''/out/about.html'' = Some (File ''about{}'')"
proof -
  have r: "renderToHtml ex_cfg ex_env ex_broken ''/site/draft.edge'' = Inl RenderError"
    by (simp add: ex_defs run_defs)
  have m: "map (renderToHtml ex_cfg ex_env ex_blocked) [''/site/index.edge'', ''/site/about.edge''] =
       map Inr [''<p>@include(_footer)</p>{}'', ''about{}'']"
    by (simp add: ex_defs ex_blocked_def run_defs)
  have d: "setDest ex_cfg ''/site/index.edge'' = ''/out/index.html''"
    "setDest ex_cfg ''/site/about.edge'' = ''/out/about.html''"
    by (simp_all add: ex_defs run_defs)
  have w: "\<not> can_write (fsys ex_blocked) ''/out/index.html''"
    "can_write (fsys ex_blocked) ''/out/about.html''"
    by (simp_all add: ex_defs ex_blocked_def can_write_def dirname_def)
  have c: "console ex_broken = []" by (simp add: ex_defs)
  from C6_batch_failure[of "[''/site/index.edge'', ''/site/draft.edge'']" ex_cfg ex_env ex_broken "[]"] r
  have a: "\<exists>e. html ex_cfg ex_env (Some [''/site/index.edge'', ''/site/draft.edge'']) ex_broken =
            (Inl e, ex_broken\<lparr>console := [Starting ''html'']\<rparr>)"
    unfolding c by auto
  let ?fl = "[''/site/index.edge'', ''/site/about.edge'']"
  let ?cs = "[''<p>@include(_footer)</p>{}'', ''about{}'']"
  let ?st' = "snd (html ex_cfg ex_env (Some ?fl) ex_blocked)"
  have "map (renderToHtml ex_cfg ex_env ex_blocked) ?fl = map Inr ?cs \<longrightarrow>
        fsys ?st' = snd (util_writeFile (fsys ex_blocked) (map (setDest ex_cfg) ?fl) ?cs)
        \<and> ((\<exists>e. fst (html ex_cfg ex_env (Some ?fl) ex_blocked) = Inl e) =
             (\<not> list_all (can_write (fsys ex_blocked)) (map (setDest ex_cfg) ?fl)))
        \<and> (\<forall>i. i < length ?fl \<and> can_write (fsys ex_blocked) (setDest ex_cfg (?fl ! i))
               \<and> (\<forall>j. i < j \<and> j < length ?fl \<longrightarrow>
                     setDest ex_cfg (?fl ! j) \<noteq> setDest ex_cfg (?fl ! i))
               \<longrightarrow> map_of (fsys ?st') (setDest ex_cfg (?fl ! i)) = Some (File (?cs ! i)))"
    using C6_batch_failure[of ?fl ex_cfg ex_env ex_blocked ?cs] by (rule conjunct2)
  with m have t: "((\<exists>e. fst (html ex_cfg ex_env (Some ?fl) ex_blocked) = Inl e) =
             (\<not> list_all (can_write (fsys ex_blocked)) (map (setDest ex_cfg) ?fl)))"
    and u: "\<forall>i. i < length ?fl \<and> can_write (fsys ex_blocked) (setDest ex_cfg (?fl ! i))
               \<and> (\<forall>j. i < j \<and> j < length ?fl \<longrightarrow>
                     setDest ex_cfg (?fl ! j) \<noteq> setDest ex_cfg (?fl ! i))
               \<longrightarrow> map_of (fsys ?st') (setDest ex_cfg (?fl ! i)) = Some (File (?cs ! i))"
    by blast+
  have b: "\<exists>e. fst (html ex_cfg ex_env (Some ?fl) ex_blocked) = Inl e"
    unfolding t using w d by simp
  have "Suc 0 < length ?fl \<and> can_write (fsys ex_blocked) (setDest ex_cfg (?fl ! Suc 0))
               \<and> (\<forall>j. Suc 0 < j \<and> j < length ?fl \<longrightarrow>
                     setDest ex_cfg (?fl ! j) \<noteq> setDest ex_cfg (?fl ! Suc 0))"
    using w d by simp
  with u have "map_of (fsys ?st') (setDest ex_cfg (?fl ! Suc 0)) = Some (File (?cs ! Suc 0))"
    by blast
  then have "map_of (fsys ?st') ''/out/about.html'' = Some (File ''about{}'')"
    using d by simp
  with a b r m show ?thesis by blast
qed

text \<open>
  C6, the counterexample: on the site with a page that does not render, a change of the
  footer has the index page, the layout and the broken page as targets. The index page
  renders, yet its output is not written: the batch rejects with the render error and
  \<^verbatim>\<open>/out/index.html\<close> does not exist afterwards.
\<close>

theorem C6_render_failure_counterexample:
  "renderToHtml ex_cfg ex_env ex_broken ''/site/index.edge'' = Inr ''<p>@include(_footer)</p>{}''
   \<and> on_event ex_cfg ex_env Change ''/site/_footer.edge'' ex_broken =
       (Inl RenderError, ex_broken\<lparr>console := [Starting ''html'']\<rparr>)
   \<and> map_of (fsys (snd (on_event ex_cfg ex_env Change ''/site/_footer.edge'' ex_broken)))
        ''/out/index.html'' = None"
  by (simp add: ex_defs run_defs)

section \<open>Deleting a source file (C5)\<close>

text \<open>
  C5, as the code has it. An \<^verbatim>\<open>unlink\<close> event on an \<^verbatim>\<open>.edge\<close> path, page or partial
  alike, removes the destination path \<open>setDest\<close> of it together with everything below
  that path, leaves every other entry of the file system as it was, and writes nothing:
  \<open>html\<close> runs on the empty list and only prints its two lines.
\<close>

theorem C5_unlink:
  assumes "ext (path_parse (unbackslash t)) = ''.edge''"
  shows "on_event cf en Unlink t st =
       (Inr (), st\<lparr>fsys := fs_rm (fsys st) (setDest cf (unbackslash t)),
                   console := console st @ [Starting ''html'', Finished ''html'']\<rparr>)
     \<and> map_of (fs_rm (fsys st) (setDest cf (unbackslash t))) p =
         (if p = setDest cf (unbackslash t) then None
          else if prefix (setDest cf (unbackslash t) @ ''/'') p then None
          else map_of (fsys st) p)"
  using assms
  by (simp add: on_event_def classify_def Let_def util_rm_def setDest_def html_Some_Nil map_of_fs_rm)

theorem C5_unlink_witness:
  "ext (path_parse (unbackslash ''/site/about.edge'')) = ''.edge''
   \<and> setDest ex_cfg ''/site/about.edge'' = ''/out/about.html''
   \<and> map_of (fsys ex_built) ''/out/about.html'' = Some (File ''about{}'')
   \<and> map_of (fsys (snd (on_event ex_cfg ex_env Unlink ''/site/about.edge'' ex_built)))
        ''/out/about.html'' = None
   \<and> map_of (fsys (snd (on_event ex_cfg ex_env Unlink ''/site/about.edge'' ex_built)))
        ''/out/index.html'' = map_of (fsys ex_built) ''/out/index.html''"
proof -
  have h: "ext (path_parse (unbackslash ''/site/about.edge'')) = ''.edge''"
    by (simp add: run_defs)
  have u: "unbackslash ''/site/about.edge'' = ''/site/about.edge''"
    by (simp add: unbackslash_def)
  have d: "setDest ex_cfg ''/site/about.edge'' = ''/out/about.html''"
    by (simp add: ex_defs run_defs)
  have b: "map_of (fsys ex_built) ''/out/about.html'' = Some (File ''about{}'')"
    by (simp add: ex_defs)
  show ?thesis
    using C5_unlink[OF h, of ex_cfg ex_env ex_built "''/out/about.html''"]
      C5_unlink[OF h, of ex_cfg ex_env ex_built "''/out/index.html''"] h b
    unfolding u d by simp
qed

text \<open>
  C5, the counterexample: the claim has no destination file deleted when a partial is
  deleted. After a full build of the small site the destination \<^verbatim>\<open>/out/_footer.html\<close> of
  the footer partial exists, and the \<^verbatim>\<open>unlink\<close> event on \<^verbatim>\<open>/site/_footer.edge\<close>
  removes it.
\<close>

theorem C5_partial_unlink_counterexample:
  "is_partial ''/site/_footer.edge''
   \<and> map_of (fsys ex_built) ''/out/_footer.html'' = Some (File ''bye{}'')
   \<and> map_of (fsys (snd (on_event ex_cfg ex_env Unlink ''/site/_footer.edge'' ex_built)))
        ''/out/_footer.html'' = None"
  by (simp add: ex_defs run_defs)

section \<open>Destination paths (C7)\<close>

text \<open>
  For a path under the source root that ends in \<^verbatim>\<open>.edge\<close>, \<open>setDest\<close> replaces the root
  by the expansion of the destination root and the extension by \<^verbatim>\<open>.html\<close>. The expansion
  is the destination root itself when that holds no dollar sign, and the mapping is
  injective on such paths whatever the destination root is.
\<close>

lemma find_first_prefix: "find_first pat [] (pat @ rest) = Some ([], rest)"
proof (cases "pat @ rest")
  case Nil
  then show ?thesis by simp
next
  case (Cons a list)
  have "prefix pat (a # list)" using Cons by (metis prefixI)
  moreover have "drop (length pat) (a # list) = rest" using Cons by (metis append_eq_conv_conj)
  ultimately show ?thesis using Cons by simp
qed

lemma getSubstitution_plain:
  "CHR ''$'' \<notin> set rep \<Longrightarrow> getSubstitution m pre post rep = rep"
  by (induction m pre post rep rule: getSubstitution.induct) auto

lemma getSubstitution_length_mono:
  "length p1 \<le> length p2 \<Longrightarrow>
   length (getSubstitution m pre p1 rep) \<le> length (getSubstitution m pre p2 rep)"
proof (induction rep rule: length_induct)
  case (1 rep)
  show ?case
  proof (cases rep)
    case Nil
    then show ?thesis by simp
  next
    case (Cons c r)
    show ?thesis
    proof (cases r)
      case Nil
      then show ?thesis using Cons by simp
    next
      case (Cons d r')
      have a: "length (getSubstitution m pre p1 r') \<le> length (getSubstitution m pre p2 r')"
        using 1 \<open>rep = c # r\<close> Cons by simp
      have b: "length (getSubstitution m pre p1 (d # r')) \<le> length (getSubstitution m pre p2 (d # r'))"
        using 1 \<open>rep = c # r\<close> Cons by simp
      show ?thesis using a b 1(2) \<open>rep = c # r\<close> Cons by simp
    qed
  qed
qed

lemma str_replace_root:
  "str_replace (s @ rest) s d = getSubstitution s [] rest d @ rest"
  by (simp add: str_replace_def find_first_prefix)

lemma getSubstitution_append_inj:
  assumes "getSubstitution m pre p1 rep @ p1 = getSubstitution m pre p2 rep @ p2"
  shows "p1 = p2"
proof -
  have l: "length (getSubstitution m pre p1 rep) + length p1 =
      length (getSubstitution m pre p2 rep) + length p2"
    using assms by (metis length_append)
  have "length p1 = length p2"
  proof (rule ccontr)
    assume "length p1 \<noteq> length p2"
    then consider "length p1 < length p2" | "length p2 < length p1" by linarith
    then show False
    proof cases
      case 1
      then show False using getSubstitution_length_mono[of p1 p2 m pre rep] l by simp
    next
      case 2
      then show False using getSubstitution_length_mono[of p2 p1 m pre rep] l by simp
    qed
  qed
  then show ?thesis using assms by (metis append_eq_append_conv)
qed

lemma setDest_under_root:
  "setDest cf (src cf @ r @ ''.edge'') =
     getSubstitution (src cf) [] (r @ ''.edge'') (dst cf) @ r @ ''.html''"
  by (simp add: setDest_def str_replace_root slice_0_m4_def)

lemma setDest_plain:
  "CHR ''$'' \<notin> set (dst cf) \<Longrightarrow> setDest cf (src cf @ r @ ''.edge'') = dst cf @ r @ ''.html''"
  by (simp add: setDest_under_root getSubstitution_plain)

lemma setDest_inj:
  assumes "setDest cf (src cf @ r1 @ ''.edge'') = setDest cf (src cf @ r2 @ ''.edge'')"
  shows "r1 = r2"
proof -
  let ?g = "\<lambda>r. getSubstitution (src cf) [] (r @ ''.edge'') (dst cf)"
  have "?g r1 @ r1 @ ''.html'' = ?g r2 @ r2 @ ''.html''"
    using assms by (simp add: setDest_under_root)
  then have "(?g r1 @ r1) @ ''.html'' = (?g r2 @ r2) @ ''.html''" by simp
  then have "?g r1 @ r1 = ?g r2 @ r2" by (simp only: append_same_eq)
  then have "?g r1 @ (r1 @ ''.edge'') = ?g r2 @ (r2 @ ''.edge'')" by simp
  then have "r1 @ ''.edge'' = r2 @ ''.edge''" by (rule getSubstitution_append_inj)
  then show ?thesis by simp
qed

text \<open>
  C7, at the input where the code departs from the claim: with the destination root
  \<^verbatim>\<open>$$out\<close> the page \<^verbatim>\<open>site/index.edge\<close> is mapped to \<^verbatim>\<open>$out/index.html\<close>, not to
  \<^verbatim>\<open>$$out/index.html\<close>: \<^verbatim>\<open>replace\<close> reads the two dollar signs of its replacement text
  as an escape for one.
\<close>

theorem C7_dollar_in_destination:
  "setDest \<lparr>src = ''site'', dst = ''$$out'', build = True\<rparr> ''site/index.edge'' = ''$out/index.html''"
  by (simp add: run_defs)

section \<open>A failing reload (C8)\<close>

text \<open>
  C8, as the code has it. For an event on a \<^verbatim>\<open>.json\<close> path, if the data file cannot be
  read or parsed, the callback rejects with that error and the state is exactly as
  before: the previous \<open>data\<close> is still held, nothing is rendered or written, and nothing
  is printed. The program does not catch the rejection.
\<close>

theorem C8_reload_failure:
  assumes "ext (path_parse (unbackslash t)) = ''.json''"
    and "getData cf en (fsys st) = Inl e"
  shows "classify cf en ev t st = (Inl e, st) \<and> on_event cf en ev t st = (Inl e, st)"
  using assms by (simp add: on_event_def classify_json)

theorem C8_reload_failure_witness:
  "ext (path_parse (unbackslash ''/site/data.json'')) = ''.json''
   \<and> getData ex_cfg ex_env (fsys ex_badjson) = Inl ConfigError
   \<and> on_event ex_cfg ex_env Change ''/site/data.json'' ex_badjson = (Inl ConfigError, ex_badjson)"
proof -
  have h1: "ext (path_parse (unbackslash ''/site/data.json'')) = ''.json''"
    by (simp add: run_defs)
  have h2: "getData ex_cfg ex_env (fsys ex_badjson) = Inl ConfigError"
    by (simp add: ex_defs run_defs)
  show ?thesis using C8_reload_failure[OF h1 h2, of Change] h1 h2 by simp
qed

text \<open>
  C8, the counterexample: the claim has the failure logged and the event skipped by the
  program. On the site whose data file is not JSON the callback of a change of the data
  file rejects with the error, uncaught, and the console is as it was: nothing was
  logged.
\<close>

theorem C8_uncaught_counterexample:
  "fst (on_event ex_cfg ex_env Change ''/site/data.json'' ex_badjson) = Inl ConfigError
   \<and> console (snd (on_event ex_cfg ex_env Change ''/site/data.json'' ex_badjson)) =
       console ex_badjson"
  by (simp add: ex_defs run_defs)

section \<open>The timers of the watch loop (C9)\<close>











end
